theory Spec2Isabelle
  imports Main
begin

section \<open>JavaScript values\<close>

text \<open>
  The library receives a syntax tree produced by a parser (SpiderMonkey Parser API): plain
  JavaScript objects whose fields hold primitives, arrays or further objects.  The code
  observes these values only through truthiness, \<^verbatim>\<open>typeof\<close>, \<^verbatim>\<open>instanceof Array\<close>, strict
  comparison with string literals, reading fields by name, \<^verbatim>\<open>Object.keys\<close> and conversion to
  a string (the \<^verbatim>\<open>+\<close> of string concatenation).

  An object is the list of its own enumerable fields in the order \<^verbatim>\<open>Object.keys\<close> reports
  them (field names are pairwise distinct).  A number is represented by its canonical
  rendering (what \<^verbatim>\<open>String(n)\<close> gives), which determines it up to the sign of zero: the
  code never computes with numbers, it only tests them for truthiness and prints them.
  Functions, regular expressions and symbols do not occur.
\<close>

datatype jsval =
    JUndefined
  | JNull
  | JBool bool
  | JNum string
  | JStr string
  | JArr "jsval list"
  | JObj "(string \<times> jsval) list"

text \<open>What a \<^verbatim>\<open>throw\<close> carries: a \<^verbatim>\<open>TypeError\<close> raised by the engine (reading a property of
  \<^verbatim>\<open>null\<close> or \<^verbatim>\<open>undefined\<close>, calling something that is not a function), or the string
  thrown by the library itself.\<close>

datatype exn = TypeError | Thrown string

text \<open>The conversion to boolean of a condition (\<^verbatim>\<open>v ? a : b\<close>, \<^verbatim>\<open>a && b\<close>, \<^verbatim>\<open>!v\<close>).\<close>

fun truthy :: "jsval \<Rightarrow> bool" where
  "truthy JUndefined = False"
| "truthy JNull = False"
| "truthy (JBool b) = b"
| "truthy (JNum r) = (r \<noteq> ''0'' \<and> r \<noteq> ''NaN'')"
| "truthy (JStr s) = (s \<noteq> [])"
| "truthy (JArr xs) = True"
| "truthy (JObj fs) = True"

fun typeof :: "jsval \<Rightarrow> string" where
  "typeof JUndefined = ''undefined''"
| "typeof JNull = ''object''"
| "typeof (JBool b) = ''boolean''"
| "typeof (JNum r) = ''number''"
| "typeof (JStr s) = ''string''"
| "typeof (JArr xs) = ''object''"
| "typeof (JObj fs) = ''object''"

fun instanceof_Array :: "jsval \<Rightarrow> bool" where
  "instanceof_Array (JArr xs) = True"
| "instanceof_Array v = False"

definition nullish :: "jsval \<Rightarrow> bool" where
  "nullish v = (v = JNull \<or> v = JUndefined)"

text \<open>\<^verbatim>\<open>v.k\<close> for a value that is neither \<^verbatim>\<open>null\<close> nor \<^verbatim>\<open>undefined\<close> and one of the field
  names the library reads (\<^verbatim>\<open>type\<close>, \<^verbatim>\<open>body\<close>, \<^verbatim>\<open>id\<close>, ...): the field of an object if it
  has one, \<^verbatim>\<open>undefined\<close> otherwise.  Primitives and arrays have none of these fields.\<close>

fun prop_of :: "jsval \<Rightarrow> string \<Rightarrow> jsval" where
  "prop_of (JObj fs) k = (case map_of fs k of Some v \<Rightarrow> v | None \<Rightarrow> JUndefined)"
| "prop_of v k = JUndefined"

text \<open>\<^verbatim>\<open>Array.prototype.join\<close> on strings.\<close>

fun join :: "string \<Rightarrow> string list \<Rightarrow> string" where
  "join sep [] = []"
| "join sep [x] = x"
| "join sep (x # y # ys) = x @ sep @ join sep (y # ys)"

text \<open>
  The conversion to a string performed by \<^verbatim>\<open>+\<close> when the other operand is a string, and by
  \<^verbatim>\<open>join\<close> on the elements of an array.  An object is first converted to a primitive by
  its methods \<^verbatim>\<open>valueOf\<close> and \<^verbatim>\<open>toString\<close>.  A plain object inherits both from
  \<^verbatim>\<open>Object.prototype\<close>: \<^verbatim>\<open>valueOf\<close> returns the object itself, which is no primitive, and
  \<^verbatim>\<open>toString\<close> returns \<^verbatim>\<open>[object Object]\<close>.  An own field \<^verbatim>\<open>toString\<close> hides the inherited
  method; its value is not a function (there are none among these values), so that no
  method gives a primitive and the conversion raises \<^verbatim>\<open>TypeError\<close>.  An array is converted
  by \<^verbatim>\<open>Array.prototype.toString\<close>, which joins the conversions of its elements with commas,
  \<^verbatim>\<open>null\<close> and \<^verbatim>\<open>undefined\<close> giving the empty string; the conversion of an element may raise
  \<^verbatim>\<open>TypeError\<close> in turn.
\<close>

fun to_string :: "jsval \<Rightarrow> exn + string"
  and elements_to_strings :: "jsval list \<Rightarrow> exn + string list" where
  "to_string JUndefined = Inr ''undefined''"
| "to_string JNull = Inr ''null''"
| "to_string (JBool b) = Inr (if b then ''true'' else ''false'')"
| "to_string (JNum r) = Inr r"
| "to_string (JStr s) = Inr s"
| "to_string (JArr xs) =
     (case elements_to_strings xs of
        Inl e \<Rightarrow> Inl e
      | Inr ss \<Rightarrow> Inr (join '','' ss))"
| "to_string (JObj fs) =
     (case map_of fs ''toString'' of
        None \<Rightarrow> Inr ''[object Object]''
      | Some v \<Rightarrow> Inl TypeError)"
| "elements_to_strings [] = Inr []"
| "elements_to_strings (x # xs) =
     (case (if x = JNull \<or> x = JUndefined then Inr [] else to_string x) of
        Inl e \<Rightarrow> Inl e
      | Inr s \<Rightarrow>
          (case elements_to_strings xs of
             Inl e \<Rightarrow> Inl e
           | Inr ss \<Rightarrow> Inr (s # ss)))"

fun show_nat :: "nat \<Rightarrow> string" where
  "show_nat n = (if n < 10 then [''0123456789'' ! n]
                 else show_nat (n div 10) @ [''0123456789'' ! (n mod 10)])"

text \<open>The pairs \<^verbatim>\<open>(key, node[key])\<close> for \<^verbatim>\<open>key\<close> in \<^verbatim>\<open>Object.keys(node)\<close> (ES2015: a primitive
  argument is converted to an object first; arrays and strings have their indices as
  keys, numbers and booleans have none).\<close>

fun own_props :: "jsval \<Rightarrow> (string \<times> jsval) list" where
  "own_props (JObj fs) = fs"
| "own_props (JArr xs) = zip (map show_nat [0..<length xs]) xs"
| "own_props (JStr s) = zip (map show_nat [0..<length s]) (map (\<lambda>c. JStr [c]) s)"
| "own_props v = []"

text \<open>\<^verbatim>\<open>xs.concat(v)\<close>: an array argument is spliced in, anything else is appended as one
  element.\<close>

fun concat_js :: "jsval list \<Rightarrow> jsval \<Rightarrow> jsval list" where
  "concat_js xs (JArr ys) = xs @ ys"
| "concat_js xs v = xs @ [v]"

text \<open>\<^verbatim>\<open>xs.map(f)\<close> for a callback that may throw: the first exception ends the loop.\<close>

fun map_js :: "('a \<Rightarrow> exn + 'b) \<Rightarrow> 'a list \<Rightarrow> exn + 'b list" where
  "map_js f [] = Inr []"
| "map_js f (x # xs) =
     (case f x of
        Inl e \<Rightarrow> Inl e
      | Inr y \<Rightarrow> (case map_js f xs of Inl e \<Rightarrow> Inl e | Inr ys \<Rightarrow> Inr (y # ys)))"


section \<open>The diagnostic digest: \<^verbatim>\<open>formatNode\<close>\<close>

text \<open>The callback of \<^verbatim>\<open>Object.keys(node).map(...)\<close>, applied to a key and \<^verbatim>\<open>node[key]\<close>.  In
  \<^verbatim>\<open>key + ':' + value.type\<close> the kind is converted to a string.\<close>

definition format_property :: "string \<times> jsval \<Rightarrow> exn + string" where
  "format_property kv =
     (let key = fst kv; value = snd kv in
      if truthy value \<and> truthy (prop_of value ''type'') then
        (case to_string (prop_of value ''type'') of
           Inl e \<Rightarrow> Inl e
         | Inr t \<Rightarrow> Inr (key @ '':'' @ t))
      else if instanceof_Array value then
        Inr (key @ '':[]'')
      else if truthy value then
        Inr (key @ '':'' @ typeof value)
      else
        Inr key)"

text \<open>\<^verbatim>\<open>Object.keys\<close> raises \<^verbatim>\<open>TypeError\<close> on \<^verbatim>\<open>null\<close> and \<^verbatim>\<open>undefined\<close>.  The properties are
  formatted first; then \<^verbatim>\<open>node.type + ' (' + properties.join(', ') + ')'\<close> converts the kind
  of the node.\<close>

definition formatNode :: "jsval \<Rightarrow> exn + string" where
  "formatNode n =
     (if nullish n then Inl TypeError
      else
        (case map_js format_property (own_props n) of
           Inl e \<Rightarrow> Inl e
         | Inr properties \<Rightarrow>
             (case to_string (prop_of n ''type'') of
                Inl e \<Rightarrow> Inl e
              | Inr t \<Rightarrow> Inr (t @ '' ('' @ join '', '' properties @ '')''))))"


section \<open>Wrapped nodes\<close>

text \<open>
  \<^verbatim>\<open>Spiderman.Node\<close> holds the raw node and the wrapping parent (\<^verbatim>\<open>undefined\<close> for the root).
  Its field \<^verbatim>\<open>type\<close> is assigned once, in the constructor, from \<^verbatim>\<open>node.type\<close>, and raw nodes
  are never mutated: it is the function \<open>type\<close> below.  The fields \<^verbatim>\<open>cachedChildren\<close> and
  \<^verbatim>\<open>cachedScope\<close> memoise \<^verbatim>\<open>_children().map(...)\<close> and \<^verbatim>\<open>_scope()\<close>, which depend on nothing
  but the wrapped node; a memoised method is the function it caches.

  Because of the caches every wrapped node of a tree is created once, by its parent, so
  a wrapped node is its raw node together with the chain of its ancestors.  Two wrapped
  nodes that are equal as values and yet two objects are children of equal parents with
  equal raw nodes (a statement repeated verbatim, say).  The code compares objects in one
  place only, the scopes in \<^verbatim>\<open>_identifiers\<close>; there the scope at hand is compared with scopes
  of nodes at or below its own node, and nodes at different depths are never equal
  (\<open>ancestors_length\<close> below), so equality of values decides as \<^verbatim>\<open>===\<close> does.
\<close>

datatype wnode = WNode (node: jsval) (parent: "wnode option")

definition type :: "wnode \<Rightarrow> jsval" where
  "type this = prop_of (node this) ''type''"

text \<open>The constructor: \<^verbatim>\<open>this.type = node.type\<close> raises \<^verbatim>\<open>TypeError\<close> when \<^verbatim>\<open>node\<close> is \<^verbatim>\<open>null\<close>
  or \<^verbatim>\<open>undefined\<close>.\<close>

definition Node :: "jsval \<Rightarrow> wnode option \<Rightarrow> exn + wnode" where
  "Node n p = (if nullish n then Inl TypeError else Inr (WNode n p))"

definition Spiderman :: "jsval \<Rightarrow> exn + wnode" where
  "Spiderman ast = Node ast None"


section \<open>The child extractor: \<^verbatim>\<open>_children\<close> (src/spiderman.js)\<close>

text \<open>\<^verbatim>\<open>v ? [v] : []\<close>\<close>

definition opt :: "jsval \<Rightarrow> jsval list" where
  "opt v = (if truthy v then [v] else [])"

definition report_url :: string where
  "report_url = ''Report this to https://github.com/dtao/spiderman/issues''"

definition unknown_node_type :: "jsval \<Rightarrow> exn + jsval" where
  "unknown_node_type n =
     (case formatNode n of
        Inl e \<Rightarrow> Inl e
      | Inr s \<Rightarrow> Inl (Thrown (''Unknown node type: '' @ s @ [CHR 0x0A, CHR 0x0A] @ report_url)))"

text \<open>
  The \<^verbatim>\<open>switch (node.type)\<close> of \<^verbatim>\<open>_children\<close>: one entry per \<^verbatim>\<open>case\<close> label, in the order of
  the source, with the value its \<^verbatim>\<open>return\<close> yields for the raw node (for \<^verbatim>\<open>return node.body\<close>
  that need not be an array).  Labels that share a body have one entry each.
\<close>

definition switch_cases :: "(string \<times> (jsval \<Rightarrow> jsval)) list" where
  "switch_cases =
     [(''Program'', \<lambda>n. prop_of n ''body''),
      (''FunctionDeclaration'', \<lambda>n. JArr [prop_of n ''body'']),
      (''FunctionExpression'', \<lambda>n. JArr [prop_of n ''body'']),
      (''EmptyStatement'', \<lambda>n. JArr []),
      (''BlockStatement'', \<lambda>n. prop_of n ''body''),
      (''ExpressionStatement'', \<lambda>n. JArr [prop_of n ''expression'']),
      (''IfStatement'', \<lambda>n.
         JArr (concat_js [prop_of n ''test'', prop_of n ''consequent'']
                 (JArr (opt (prop_of n ''alternate''))))),
      (''LabeledStatement'', \<lambda>n. JArr [prop_of n ''body'']),
      (''BreakStatement'', \<lambda>n. JArr []),
      (''ContinueStatement'', \<lambda>n. JArr []),
      (''WithStatement'', \<lambda>n. JArr [prop_of n ''object'', prop_of n ''body'']),
      (''SwitchStatement'', \<lambda>n.
         JArr (concat_js [prop_of n ''discriminant''] (prop_of n ''cases''))),
      (''ReturnStatement'', \<lambda>n. JArr (opt (prop_of n ''argument''))),
      (''ThrowStatement'', \<lambda>n.
         JArr (concat_js (concat_js [prop_of n ''block'']
                            (JArr (opt (prop_of n ''handler''))))
                 (JArr (opt (prop_of n ''finalizer''))))),
      (''WhileStatement'', \<lambda>n. JArr [prop_of n ''test'', prop_of n ''body'']),
      (''DoWhileStatement'', \<lambda>n. JArr [prop_of n ''body'', prop_of n ''test'']),
      (''ForStatement'', \<lambda>n.
         JArr (concat_js (concat_js (concat_js (concat_js []
                 (JArr (opt (prop_of n ''init''))))
                 (JArr (opt (prop_of n ''test''))))
                 (JArr (opt (prop_of n ''update''))))
                 (JArr [prop_of n ''body'']))),
      (''ForInStatement'', \<lambda>n.
         JArr [prop_of n ''left'', prop_of n ''right'', prop_of n ''body'']),
      (''ForOfStatement'', \<lambda>n.
         JArr [prop_of n ''left'', prop_of n ''right'', prop_of n ''body'']),
      (''LetStatement'', \<lambda>n. JArr [prop_of n ''head'', prop_of n ''body'']),
      (''DebuggerStatement'', \<lambda>n. JArr []),
      (''VariableDeclaration'', \<lambda>n. prop_of n ''declarations''),
      (''VariableDeclarator'', \<lambda>n. JArr [prop_of n ''init'']),
      (''ThisExpression'', \<lambda>n. JArr []),
      (''ArrayExpression'', \<lambda>n. prop_of n ''elements''),
      (''ObjectExpression'', \<lambda>n. prop_of n ''properties''),
      (''Property'', \<lambda>n. JArr [prop_of n ''key'', prop_of n ''value'']),
      (''ArrowExpression'', \<lambda>n. JArr [prop_of n ''body'']),
      (''SequenceExpression'', \<lambda>n. prop_of n ''expressions''),
      (''UnaryExpression'', \<lambda>n. JArr [prop_of n ''argument'']),
      (''BinaryExpression'', \<lambda>n. JArr [prop_of n ''left'', prop_of n ''right'']),
      (''AssignmentExpression'', \<lambda>n. JArr [prop_of n ''left'', prop_of n ''right'']),
      (''UpdateExpression'', \<lambda>n. JArr [prop_of n ''argument'']),
      (''LogicalExpression'', \<lambda>n. JArr [prop_of n ''left'', prop_of n ''right'']),
      (''ConditionalExpression'', \<lambda>n.
         JArr [prop_of n ''test'', prop_of n ''consequent'', prop_of n ''alternate'']),
      (''NewExpression'', \<lambda>n.
         JArr (concat_js [prop_of n ''callee''] (prop_of n ''arguments''))),
      (''CallExpression'', \<lambda>n.
         JArr (concat_js [prop_of n ''callee''] (prop_of n ''arguments''))),
      (''MemberExpression'', \<lambda>n. JArr [prop_of n ''object'', prop_of n ''property'']),
      (''YieldExpression'', \<lambda>n. JArr [prop_of n ''argument'']),
      (''SwitchCase'', \<lambda>n.
         JArr (concat_js (opt (prop_of n ''test'')) (prop_of n ''consequent''))),
      (''CatchClause'', \<lambda>n. JArr [prop_of n ''param'', prop_of n ''body'']),
      (''Identifier'', \<lambda>n. JArr []),
      (''Literal'', \<lambda>n. JArr [])]"

text \<open>The \<^verbatim>\<open>switch\<close> compares \<^verbatim>\<open>node.type\<close> with each label by \<^verbatim>\<open>===\<close> and runs the first
  case that matches; a value that is not a string, or a string that is no label, runs
  \<^verbatim>\<open>default\<close>.\<close>

definition run_switch ::
    "(string \<times> (jsval \<Rightarrow> jsval)) list \<Rightarrow> jsval \<Rightarrow> exn + jsval" where
  "run_switch cases n =
     (case prop_of n ''type'' of
        JStr k \<Rightarrow>
          (case map_of cases k of
             Some ret \<Rightarrow> Inr (ret n)
           | None \<Rightarrow> unknown_node_type n)
      | _ \<Rightarrow> unknown_node_type n)"

definition children_impl :: "wnode \<Rightarrow> exn + jsval" where
  "children_impl this = run_switch switch_cases (node this)"

text \<open>\<^verbatim>\<open>children()\<close>: \<^verbatim>\<open>this._children().map(function(child) { return new Spiderman.Node(child,
  node); })\<close>.  Calling \<^verbatim>\<open>map\<close> on a value that is not an array raises \<^verbatim>\<open>TypeError\<close>.\<close>

definition children :: "wnode \<Rightarrow> exn + wnode list" where
  "children this =
     (case children_impl this of
        Inl e \<Rightarrow> Inl e
      | Inr (JArr xs) \<Rightarrow> map_js (\<lambda>child. Node child (Some this)) xs
      | Inr _ \<Rightarrow> Inl TypeError)"


section \<open>Traversal: \<^verbatim>\<open>descendents\<close>\<close>

text \<open>Every child that can be wrapped is a proper part of the raw node of its parent; this
  is what makes the traversal terminate.\<close>

lemma size_map_of: "map_of fs k = Some v \<Longrightarrow> size v < Suc (size_list (size_prod f size) fs)"
  by (induction fs) (auto split: if_splits)

lemma size_prop_of: "prop_of n k \<noteq> JUndefined \<Longrightarrow> size (prop_of n k) < size n"
  by (cases n) (auto split: option.splits dest: size_map_of)

lemma size_elem: "x \<in> set xs \<Longrightarrow> size x < Suc (size_list size xs)"
  by (induction xs) auto

definition below :: "jsval \<Rightarrow> jsval \<Rightarrow> bool" where
  "below n x = (nullish x \<or> size x < size n)"

fun elems_below :: "jsval \<Rightarrow> jsval \<Rightarrow> bool" where
  "elems_below n (JArr xs) = (\<forall>x\<in>set xs. below n x)"
| "elems_below n v = True"

lemma below_prop_of: "below n (prop_of n k)"
  using size_prop_of[of n k] by (auto simp: below_def nullish_def)

lemma elems_below_prop_of: "elems_below n (prop_of n k)"
proof (cases "prop_of n k")
  case (JArr xs)
  have "size x < size n" if "x \<in> set xs" for x
    using size_prop_of[of n k] size_elem[OF that] JArr by simp
  then show ?thesis using JArr by (simp add: below_def)
qed simp_all

lemma below_opt: "x \<in> set (opt (prop_of n k)) \<Longrightarrow> below n x"
  by (auto simp: opt_def below_prop_of split: if_splits)

lemma ball_concat_js_prop:
  "(\<forall>x\<in>set (concat_js xs (prop_of n k)). below n x) = (\<forall>x\<in>set xs. below n x)"
  using elems_below_prop_of[of n k] below_prop_of[of n k]
  by (cases "prop_of n k") auto

lemma ball_opt: "(\<forall>x\<in>set (opt (prop_of n k)). below n x)"
  by (simp add: below_opt)

lemmas below_list_simps = ball_concat_js_prop ball_opt

lemma switch_cases_below_all:
  "list_all (\<lambda>(k, ret). elems_below n (ret n)) switch_cases"
  by (simp add: switch_cases_def below_prop_of elems_below_prop_of below_list_simps ball_Un)

lemma switch_cases_below: "(k, ret) \<in> set switch_cases \<Longrightarrow> elems_below n (ret n)"
  using switch_cases_below_all[of n] by (auto simp: list_all_iff)

lemma run_switch_Inr:
  "run_switch cases n = Inr v \<Longrightarrow> \<exists>k ret. (k, ret) \<in> set cases \<and> v = ret n"
  by (auto simp: run_switch_def unknown_node_type_def
           split: jsval.splits option.splits sum.splits dest: map_of_SomeD)

lemma children_impl_below:
  "children_impl this = Inr v \<Longrightarrow> elems_below (node this) v"
  by (auto simp: children_impl_def dest!: run_switch_Inr dest: switch_cases_below)

lemma map_js_Node_size:
  "map_js (\<lambda>child. Node child p) xs = Inr cs \<Longrightarrow> \<forall>x\<in>set xs. below n x \<Longrightarrow>
     \<forall>c\<in>set cs. size (node c) < size n"
  by (induction xs arbitrary: cs)
     (auto simp: Node_def below_def split: sum.splits if_splits)

lemma children_size:
  "children this = Inr cs \<Longrightarrow> c \<in> set cs \<Longrightarrow> size (node c) < size (node this)"
  unfolding children_def
  by (auto split: sum.splits jsval.splits dest!: children_impl_below
           dest!: map_js_Node_size[where n = "node this"])

fun max_size :: "wnode list \<Rightarrow> nat" where
  "max_size [] = 0"
| "max_size (c # cs) = max (Suc (size (node c))) (max_size cs)"

lemma max_size_le: "(\<forall>c\<in>set cs. size (node c) < n) \<Longrightarrow> max_size cs \<le> n"
  by (induction cs) auto


text \<open>\<^verbatim>\<open>descendents(list)\<close>: the \<^verbatim>\<open>for\<close> loop pushes each child onto the shared list and
  lets the child push its own descendants; \<^verbatim>\<open>descendents()\<close> starts from the empty list.\<close>

function descendents :: "wnode \<Rightarrow> wnode list \<Rightarrow> exn + wnode list"
  and descendents_loop :: "wnode list \<Rightarrow> wnode list \<Rightarrow> exn + wnode list" where
  "descendents this list =
     (case children this of
        Inl e \<Rightarrow> Inl e
      | Inr cs \<Rightarrow> descendents_loop cs list)"
| "descendents_loop [] list = Inr list"
| "descendents_loop (c # cs) list =
     (case descendents c (list @ [c]) of
        Inl e \<Rightarrow> Inl e
      | Inr list' \<Rightarrow> descendents_loop cs list')"
  by pat_completeness auto
termination
proof (relation "measures
    [\<lambda>x. case x of Inl (this, list) \<Rightarrow> 2 * size (node this) + 1 | Inr (cs, list) \<Rightarrow> 2 * max_size cs,
     \<lambda>x. case x of Inl (this, list) \<Rightarrow> 0 | Inr (cs, list) \<Rightarrow> length cs]", goal_cases)
  case 1
  then show ?case by simp
next
  case (2 this list cs)
  then have "max_size cs \<le> size (node this)"
    by (intro max_size_le) (auto dest: children_size)
  then show ?case by simp
next
  case (3 c cs list)
  have "2 * size (node c) + 1 < 2 * max (Suc (size (node c))) (max_size cs)"
    by (simp add: max_def)
  then show ?case by simp
next
  case (4 c cs list list')
  then show ?case by auto
qed


section \<open>Scopes\<close>

text \<open>
  \<^verbatim>\<open>Spiderman.Scope\<close> holds the wrapped node that introduces it.  \<^verbatim>\<open>_identifiers\<close> compares
  scopes as objects (\<^verbatim>\<open>!==\<close>), so the model has to tell the objects apart.  \<^verbatim>\<open>_scope()\<close> makes
  a new object each time it reaches \<^verbatim>\<open>new Spiderman.Scope(this)\<close>; \<^verbatim>\<open>scope()\<close> runs \<^verbatim>\<open>_scope()\<close>
  once and keeps what it returns in \<^verbatim>\<open>cachedScope\<close>.  For a node that introduces a scope
  there is thus one object that \<^verbatim>\<open>scope()\<close> returns, on it and on every node that resolves
  to it; it is \<open>Scope n True\<close>.  Any other scope object for that node (made by calling
  \<^verbatim>\<open>_scope()\<close> directly, or the constructor) is \<open>Scope n False\<close>.  The code only ever
  compares a scope with one that \<^verbatim>\<open>scope()\<close> returned, so the objects of the second kind
  need not be told apart from one another.
\<close>

datatype scope_object = Scope (scope_node: wnode) (cached: bool)

text \<open>The labels of the \<^verbatim>\<open>switch (this.type)\<close> in \<^verbatim>\<open>_scope\<close>.\<close>

definition introduces_scope :: "jsval \<Rightarrow> bool" where
  "introduces_scope t =
     (t = JStr ''Program'' \<or> t = JStr ''FunctionDeclaration'' \<or> t = JStr ''FunctionExpression'')"

text \<open>\<^verbatim>\<open>scope()\<close>: the object made by \<^verbatim>\<open>_scope()\<close> for \<^verbatim>\<open>cachedScope\<close> where the node introduces
  a scope, and \<^verbatim>\<open>this.parent.scope()\<close> otherwise, which raises \<^verbatim>\<open>TypeError\<close> when \<^verbatim>\<open>parent\<close> is
  \<^verbatim>\<open>undefined\<close>.\<close>

fun scope :: "wnode \<Rightarrow> exn + scope_object" where
  "scope (WNode n p) =
     (if introduces_scope (type (WNode n p)) then Inr (Scope (WNode n p) True)
      else (case p of None \<Rightarrow> Inl TypeError | Some q \<Rightarrow> scope q))"

text \<open>\<^verbatim>\<open>_scope()\<close> called on its own: a new object where the node introduces a scope.\<close>

definition scope_impl :: "wnode \<Rightarrow> exn + scope_object" where
  "scope_impl this =
     (if introduces_scope (type this) then Inr (Scope this False)
      else (case parent this of None \<Rightarrow> Inl TypeError | Some p \<Rightarrow> scope p))"

definition parentScope :: "wnode \<Rightarrow> exn + scope_object" where
  "parentScope this = (case parent this of None \<Rightarrow> Inl TypeError | Some p \<Rightarrow> scope p)"

text \<open>\<^verbatim>\<open>_identifiers\<close>: the callback of \<^verbatim>\<open>forEach\<close> over the descendants, with the list it
  pushes to; \<^verbatim>\<open>identifiers()\<close> is the memoised \<^verbatim>\<open>_identifiers()\<close>.\<close>

fun identifiers_loop :: "scope_object \<Rightarrow> wnode list \<Rightarrow> jsval list \<Rightarrow> exn + jsval list" where
  "identifiers_loop this [] list = Inr list"
| "identifiers_loop this (n # ns) list =
     (case parentScope n of
        Inl e \<Rightarrow> Inl e
      | Inr s \<Rightarrow>
          if s \<noteq> this then identifiers_loop this ns list
          else
            (let raw = node n in
             if truthy (prop_of raw ''id'') \<and> prop_of (prop_of raw ''id'') ''type'' = JStr ''Identifier''
             then identifiers_loop this ns (list @ [prop_of (prop_of raw ''id'') ''name''])
             else identifiers_loop this ns list))"

definition identifiers_impl :: "scope_object \<Rightarrow> exn + jsval list" where
  "identifiers_impl this =
     (case descendents (scope_node this) [] of
        Inl e \<Rightarrow> Inl e
      | Inr ds \<Rightarrow> identifiers_loop this ds [])"

definition identifiers :: "scope_object \<Rightarrow> exn + jsval list" where
  "identifiers this = identifiers_impl this"


section \<open>The later revision (src/unnamed/part_000)\<close>

text \<open>
  This revision of the file (version 0.1.0) turns \<^verbatim>\<open>children\<close> and \<^verbatim>\<open>scope\<close> into getters.
  Its \<^verbatim>\<open>_children\<close> differs in two cases: \<^verbatim>\<open>ThrowStatement\<close> returns the argument, and
  \<^verbatim>\<open>TryStatement\<close> is a case of its own, with the body that \<^verbatim>\<open>ThrowStatement\<close> has in
  src/spiderman.js.  All other cases are the same: the first match wins, so the two entries
  put in front replace the old \<^verbatim>\<open>ThrowStatement\<close> and add \<^verbatim>\<open>TryStatement\<close>.
\<close>

definition switch_cases_part_000 :: "(string \<times> (jsval \<Rightarrow> jsval)) list" where
  "switch_cases_part_000 =
     (''ThrowStatement'', \<lambda>n. JArr [prop_of n ''argument'']) #
     (''TryStatement'', \<lambda>n.
         JArr (concat_js (concat_js [prop_of n ''block'']
                            (JArr (opt (prop_of n ''handler''))))
                 (JArr (opt (prop_of n ''finalizer''))))) #
     switch_cases"

definition children_impl_part_000 :: "wnode \<Rightarrow> exn + jsval" where
  "children_impl_part_000 this = run_switch switch_cases_part_000 (node this)"

text \<open>
  The getter \<^verbatim>\<open>children\<close> of that revision tests each child first:
  \<^verbatim>\<open>if (!child) { throw 'Missing child: ' + Spiderman.formatNode(self); }\<close>.
  The operand of \<^verbatim>\<open>throw\<close> is evaluated first.  It reads the property \<^verbatim>\<open>formatNode\<close> of the
  function object \<^verbatim>\<open>Spiderman\<close> and calls it with the wrapped node; the value of that
  property is the parameter \<open>formatNode_property\<close>, \<open>None\<close> for \<^verbatim>\<open>undefined\<close>.  The file
  declares the function \<^verbatim>\<open>formatNode\<close> and never assigns the property, so on its own the
  property is \<^verbatim>\<open>undefined\<close>, and calling it raises \<^verbatim>\<open>TypeError\<close>.
\<close>

definition children_part_000 ::
    "(wnode \<Rightarrow> exn + string) option \<Rightarrow> wnode \<Rightarrow> exn + wnode list" where
  "children_part_000 formatNode_property self =
     (case children_impl_part_000 self of
        Inl e \<Rightarrow> Inl e
      | Inr (JArr xs) \<Rightarrow>
          map_js (\<lambda>child.
            if \<not> truthy child then
              (case formatNode_property of
                 None \<Rightarrow> Inl TypeError
               | Some f \<Rightarrow>
                   (case f self of
                      Inl e \<Rightarrow> Inl e
                    | Inr digest \<Rightarrow> Inl (Thrown (''Missing child: '' @ digest))))
            else Node child (Some self)) xs
      | Inr _ \<Rightarrow> Inl TypeError)"


section \<open>Notions used in the statements\<close>

text \<open>The concatenation of lists each of which may be an exception instead: the first
  exception, if there is one.\<close>

fun concat_results :: "(exn + 'a list) list \<Rightarrow> exn + 'a list" where
  "concat_results [] = Inr []"
| "concat_results (r # rs) =
     (case r of
        Inl e \<Rightarrow> Inl e
      | Inr xs \<Rightarrow> (case concat_results rs of Inl e \<Rightarrow> Inl e | Inr ys \<Rightarrow> Inr (xs @ ys)))"

text \<open>A child followed by its own \<^verbatim>\<open>descendents()\<close>.\<close>

definition child_with_descendents :: "wnode \<Rightarrow> exn + wnode list" where
  "child_with_descendents c =
     (case descendents c [] of Inl e \<Rightarrow> Inl e | Inr ds \<Rightarrow> Inr (c # ds))"

text \<open>The kinds for which \<^verbatim>\<open>_children\<close> returns \<^verbatim>\<open>[]\<close>.\<close>

definition leaf_kinds :: "string list" where
  "leaf_kinds = [''EmptyStatement'', ''BreakStatement'', ''ContinueStatement'',
     ''DebuggerStatement'', ''ThisExpression'', ''Identifier'', ''Literal'']"




text \<open>The string thrown for a node of unknown kind, given the digest of the node.\<close>

definition unknown_message :: "string \<Rightarrow> string" where
  "unknown_message digest =
     ''Unknown node type: '' @ digest @ [CHR 0x0A, CHR 0x0A] @ report_url"

text \<open>A value can be converted to a string, and the string it gives (strings, numbers,
  booleans, \<^verbatim>\<open>null\<close> and \<^verbatim>\<open>undefined\<close> always can; an object cannot when it has an own field
  \<^verbatim>\<open>toString\<close>).\<close>

definition printable :: "jsval \<Rightarrow> bool" where
  "printable v = (case to_string v of Inl e \<Rightarrow> False | Inr s \<Rightarrow> True)"

definition text_of :: "jsval \<Rightarrow> string" where
  "text_of v = (case to_string v of Inl e \<Rightarrow> [] | Inr s \<Rightarrow> s)"

text \<open>
  The entry of one field in the digest, by the kind of value the field holds: an object
  that carries a (truthy) \<^verbatim>\<open>type\<close> is a node and shows that kind, an object without one
  shows \<^verbatim>\<open>object\<close>, a list shows \<^verbatim>\<open>[]\<close>, any other truthy value shows its \<^verbatim>\<open>typeof\<close>, and a
  falsy value (\<^verbatim>\<open>null\<close>, \<^verbatim>\<open>undefined\<close>, \<^verbatim>\<open>false\<close>, \<^verbatim>\<open>0\<close>, \<^verbatim>\<open>NaN\<close>, the empty string) shows
  nothing but the name of the field.
\<close>

fun field_digest :: "string \<times> jsval \<Rightarrow> string" where
  "field_digest (k, JObj fs) =
     (if truthy (prop_of (JObj fs) ''type'')
      then k @ '':'' @ text_of (prop_of (JObj fs) ''type'')
      else k @ '':object'')"
| "field_digest (k, JArr xs) = k @ '':[]''"
| "field_digest (k, v) = (if truthy v then k @ '':'' @ typeof v else k)"

text \<open>The digest: the kind, then the entries of the fields in the order of \<^verbatim>\<open>Object.keys\<close>,
  separated by a comma and a blank, in parentheses.\<close>

definition digest :: "jsval \<Rightarrow> string" where
  "digest n =
     text_of (prop_of n ''type'') @ '' ('' @
       join '', '' (map field_digest (own_props n)) @ '')''"

text \<open>The digest can be built: the kind of the node can be converted to a string, and so
  can the kind of every field that holds a node.\<close>

fun field_prints :: "string \<times> jsval \<Rightarrow> bool" where
  "field_prints (k, JObj fs) =
     (if truthy (prop_of (JObj fs) ''type'') then printable (prop_of (JObj fs) ''type'')
      else True)"
| "field_prints (k, v) = True"

definition digest_defined :: "jsval \<Rightarrow> bool" where
  "digest_defined n = (list_all field_prints (own_props n) \<and> printable (prop_of n ''type''))"


text \<open>The digest in which every field is followed by a kind, \<^verbatim>\<open>[]\<close> or a primitive type,
  falsy values included.\<close>

fun claimed_field_digest :: "string \<times> jsval \<Rightarrow> string" where
  "claimed_field_digest (k, JObj fs) =
     (if truthy (prop_of (JObj fs) ''type'')
      then k @ '':'' @ text_of (prop_of (JObj fs) ''type'')
      else k @ '':object'')"
| "claimed_field_digest (k, JArr xs) = k @ '':[]''"
| "claimed_field_digest (k, v) = k @ '':'' @ typeof v"

definition claimed_digest :: "jsval \<Rightarrow> string" where
  "claimed_digest n =
     text_of (prop_of n ''type'') @ '' ('' @
       join '', '' (map claimed_field_digest (own_props n)) @ '')''"

text \<open>The chain of wrapping parents of a node, nearest first, and the root of its tree.\<close>

fun ancestors :: "wnode \<Rightarrow> wnode list" where
  "ancestors (WNode n None) = []"
| "ancestors (WNode n (Some p)) = p # ancestors p"

fun root :: "wnode \<Rightarrow> wnode" where
  "root (WNode n None) = WNode n None"
| "root (WNode n (Some p)) = root p"

text \<open>The node of the scope a node is nested in: its nearest ancestor that introduces a
  scope, so that no node between the two introduces one.\<close>

definition nearest_scope_ancestor :: "wnode \<Rightarrow> wnode option" where
  "nearest_scope_ancestor d = find (\<lambda>a. introduces_scope (type a)) (ancestors d)"

text \<open>The two tests of \<^verbatim>\<open>_identifiers\<close> on a descendant: its parent's scope is the scope at
  hand, and its raw node has an \<^verbatim>\<open>id\<close> of kind \<^verbatim>\<open>Identifier\<close>; and the name it contributes.\<close>

definition has_identifier_id :: "wnode \<Rightarrow> bool" where
  "has_identifier_id d =
     (truthy (prop_of (node d) ''id'') \<and>
      prop_of (prop_of (node d) ''id'') ''type'' = JStr ''Identifier'')"

definition declared_name :: "wnode \<Rightarrow> jsval" where
  "declared_name d = prop_of (prop_of (node d) ''id'') ''name''"

definition declares_in :: "scope_object \<Rightarrow> wnode \<Rightarrow> bool" where
  "declares_in s d = (parentScope d = Inr s \<and> has_identifier_id d)"

text \<open>\<^verbatim>\<open>d.parentScope()\<close> returns a scope (it does not throw).\<close>

definition parent_scope_resolves :: "wnode \<Rightarrow> bool" where
  "parent_scope_resolves d = (case parentScope d of Inl e \<Rightarrow> False | Inr s \<Rightarrow> True)"

text \<open>The descendants of the node of a scope that pass both tests, in traversal order.\<close>

definition declaring_nodes :: "scope_object \<Rightarrow> exn + wnode list" where
  "declaring_nodes s = map_sum id (filter (declares_in s)) (descendents (scope_node s) [])"

text \<open>\<open>d\<close> is among the nodes whose \<^verbatim>\<open>id\<close> the scope \<open>s\<close> collects.\<close>

definition contributes_to :: "wnode \<Rightarrow> scope_object \<Rightarrow> bool" where
  "contributes_to d s = (case declaring_nodes s of Inl e \<Rightarrow> False | Inr ds \<Rightarrow> d \<in> set ds)"

text \<open>
  Nesting in the tree.  \<open>c\<close> is a child of \<open>p\<close>: one of the wrapped nodes \<^verbatim>\<open>p.children()\<close>
  returns.  \<open>d\<close> is nested in \<open>w\<close>: going up from \<open>d\<close> by \<^verbatim>\<open>parent\<close> every node is a child of
  the next, and \<open>w\<close> is met on the way.
\<close>

definition is_child :: "wnode \<Rightarrow> wnode \<Rightarrow> bool" where
  "is_child c p = (case children p of Inl e \<Rightarrow> False | Inr cs \<Rightarrow> c \<in> set cs)"

fun nested_in :: "wnode \<Rightarrow> wnode \<Rightarrow> bool" where
  "nested_in (WNode n None) w = False"
| "nested_in (WNode n (Some p)) w =
     (is_child (WNode n (Some p)) p \<and> (p = w \<or> nested_in p w))"


section \<open>Example nodes\<close>

definition ident :: "string \<Rightarrow> jsval" where
  "ident name = JObj [(''type'', JStr ''Identifier''), (''name'', JStr name)]"

definition block :: "jsval list \<Rightarrow> jsval" where
  "block body = JObj [(''type'', JStr ''BlockStatement''), (''body'', JArr body)]"

text \<open>\<^verbatim>\<open>throw x;\<close>\<close>

definition throw_statement :: jsval where
  "throw_statement = JObj [(''type'', JStr ''ThrowStatement''), (''argument'', ident ''x'')]"

text \<open>\<^verbatim>\<open>try { } finally { }\<close>\<close>

definition try_statement :: jsval where
  "try_statement =
     JObj [(''type'', JStr ''TryStatement''),
           (''block'', block []),
           (''guardedHandlers'', JArr []),
           (''handlers'', JArr []),
           (''handler'', JNull),
           (''finalizer'', block [])]"

text \<open>The declarator of \<^verbatim>\<open>var x;\<close>\<close>

definition declarator_without_init :: jsval where
  "declarator_without_init =
     JObj [(''type'', JStr ''VariableDeclarator''), (''id'', ident ''x''), (''init'', JNull)]"

text \<open>\<^verbatim>\<open>for (;;) { }\<close>\<close>

definition for_without_clauses :: jsval where
  "for_without_clauses =
     JObj [(''type'', JStr ''ForStatement''), (''init'', JNull), (''test'', JNull),
           (''update'', JNull), (''body'', block [])]"

text \<open>An \<^verbatim>\<open>if\<close> statement that lacks its consequent.\<close>

definition if_without_consequent :: jsval where
  "if_without_consequent = JObj [(''type'', JStr ''IfStatement''), (''test'', ident ''a'')]"

text \<open>A node whose kind is an object with an own field \<^verbatim>\<open>toString\<close>.\<close>

definition unprintable_kind_node :: jsval where
  "unprintable_kind_node =
     JObj [(''type'', JObj [(''toString'', JNum ''1'')]), (''a'', JNum ''1'')]"

text \<open>A node of a kind the extractor does not know.\<close>

definition class_declaration :: jsval where
  "class_declaration = JObj [(''type'', JStr ''ClassDeclaration''), (''id'', ident ''C'')]"

definition literal :: "string \<Rightarrow> jsval" where
  "literal r = JObj [(''type'', JStr ''Literal''), (''value'', JNum r), (''raw'', JStr r)]"

definition var_declaration :: "string \<Rightarrow> jsval \<Rightarrow> jsval" where
  "var_declaration name init =
     JObj [(''type'', JStr ''VariableDeclaration''),
           (''declarations'', JArr [JObj [(''type'', JStr ''VariableDeclarator''),
                                         (''id'', ident name),
                                         (''init'', init)]]),
           (''kind'', JStr ''var'')]"

definition expression_statement :: "jsval \<Rightarrow> jsval" where
  "expression_statement e = JObj [(''type'', JStr ''ExpressionStatement''), (''expression'', e)]"

text \<open>\<^verbatim>\<open>var foo = { bar: 1 };\<close>\<close>

definition example_var :: jsval where
  "example_var =
     var_declaration ''foo''
       (JObj [(''type'', JStr ''ObjectExpression''),
              (''properties'', JArr [JObj [(''type'', JStr ''Property''),
                                           (''key'', ident ''bar''),
                                           (''value'', literal ''1''),
                                           (''kind'', JStr ''init'')]])])"

text \<open>\<^verbatim>\<open>for (var i = 0; i < 2; ++i) { foo; }\<close>\<close>

definition example_for :: jsval where
  "example_for =
     JObj [(''type'', JStr ''ForStatement''),
           (''init'', var_declaration ''i'' (literal ''0'')),
           (''test'', JObj [(''type'', JStr ''BinaryExpression''),
                            (''operator'', JStr ''<''),
                            (''left'', ident ''i''),
                            (''right'', literal ''2'')]),
           (''update'', JObj [(''type'', JStr ''UpdateExpression''),
                              (''operator'', JStr ''++''),
                              (''argument'', ident ''i''),
                              (''prefix'', JBool True)]),
           (''body'', block [expression_statement (ident ''foo'')])]"

text \<open>\<^verbatim>\<open>function f() { var g = 1; }\<close>\<close>

definition example_function :: jsval where
  "example_function =
     JObj [(''type'', JStr ''FunctionDeclaration''),
           (''id'', ident ''f''),
           (''params'', JArr []),
           (''defaults'', JArr []),
           (''body'', block [var_declaration ''g'' (literal ''1'')]),
           (''rest'', JNull),
           (''generator'', JBool False),
           (''expression'', JBool False)]"

text \<open>The program made of these three statements, followed by \<^verbatim>\<open>f();\<close> and \<^verbatim>\<open>foo;\<close>, as the
  parser delivers it.\<close>

definition example_program :: jsval where
  "example_program =
     JObj [(''type'', JStr ''Program''),
           (''body'', JArr [
              example_var,
              example_for,
              example_function,
              expression_statement
                (JObj [(''type'', JStr ''CallExpression''),
                       (''callee'', ident ''f''),
                       (''arguments'', JArr [])]),
              expression_statement (ident ''foo'')])]"

definition example_root :: wnode where
  "example_root = WNode example_program None"

definition example_var_node :: wnode where
  "example_var_node = WNode example_var (Some example_root)"

text \<open>A function of the given kind and name, with the given statements as its body.\<close>

definition function_node :: "string \<Rightarrow> string \<Rightarrow> jsval list \<Rightarrow> jsval" where
  "function_node kind name body =
     JObj [(''type'', JStr kind),
           (''id'', ident name),
           (''params'', JArr []),
           (''defaults'', JArr []),
           (''body'', block body),
           (''rest'', JNull),
           (''generator'', JBool False),
           (''expression'', JBool False)]"

text \<open>\<^verbatim>\<open>function outer() { if (a) { var h = function inner() { var z = 1; }; } }\<close>, the
  only statement of a program, with the wrapped nodes on the way down to \<^verbatim>\<open>inner\<close>.\<close>

definition inner_function :: jsval where
  "inner_function =
     function_node ''FunctionExpression'' ''inner'' [var_declaration ''z'' (literal ''1'')]"

definition if_statement :: jsval where
  "if_statement =
     JObj [(''type'', JStr ''IfStatement''),
           (''test'', ident ''a''),
           (''consequent'', block [var_declaration ''h'' inner_function]),
           (''alternate'', JNull)]"

definition outer_function :: jsval where
  "outer_function = function_node ''FunctionDeclaration'' ''outer'' [if_statement]"

definition nested_program :: jsval where
  "nested_program = JObj [(''type'', JStr ''Program''), (''body'', JArr [outer_function])]"

definition nested_root :: wnode where
  "nested_root = WNode nested_program None"

definition outer_node :: wnode where
  "outer_node = WNode outer_function (Some nested_root)"

definition if_node :: wnode where
  "if_node = WNode if_statement (Some (WNode (block [if_statement]) (Some outer_node)))"

definition declaration_node :: wnode where
  "declaration_node =
     WNode (var_declaration ''h'' inner_function)
       (Some (WNode (block [var_declaration ''h'' inner_function]) (Some if_node)))"

definition inner_node :: wnode where
  "inner_node =
     WNode inner_function
       (Some (WNode (JObj [(''type'', JStr ''VariableDeclarator''), (''id'', ident ''h''),
                           (''init'', inner_function)])
                (Some declaration_node)))"

text \<open>The program \<^verbatim>\<open>function f() { }\<close> followed by a class declaration, a statement of a
  kind the extractor does not know.\<close>

definition plain_function :: jsval where
  "plain_function = function_node ''FunctionDeclaration'' ''f'' []"

definition class_program :: jsval where
  "class_program =
     JObj [(''type'', JStr ''Program''), (''body'', JArr [plain_function, class_declaration])]"

definition class_root :: wnode where
  "class_root = WNode class_program None"

definition plain_function_node :: wnode where
  "plain_function_node = WNode plain_function (Some class_root)"


text \<open>The program \<^verbatim>\<open>function f() { var x; }\<close>.\<close>

definition bare_var_function :: jsval where
  "bare_var_function =
     function_node ''FunctionDeclaration'' ''f''
       [JObj [(''type'', JStr ''VariableDeclaration''),
              (''declarations'', JArr [declarator_without_init]),
              (''kind'', JStr ''var'')]]"

definition bare_var_root :: wnode where
  "bare_var_root =
     WNode (JObj [(''type'', JStr ''Program''), (''body'', JArr [bare_var_function])]) None"

definition bare_var_function_node :: wnode where
  "bare_var_function_node = WNode bare_var_function (Some bare_var_root)"


section \<open>Pre-order traversal\<close>

declare descendents.simps [simp del]

lemma descendents_loop_acc:
  assumes "\<And>c acc. c \<in> set cs \<Longrightarrow>
             descendents c acc = map_sum id ((@) acc) (descendents c [])"
  shows "descendents_loop cs acc = map_sum id ((@) acc) (descendents_loop cs [])"
  using assms
proof (induction cs arbitrary: acc)
  case Nil
  then show ?case by simp
next
  case (Cons c cs)
  have c: "descendents c acc = map_sum id ((@) acc) (descendents c [])" for acc
    by (rule Cons.prems) simp
  have cs: "descendents_loop cs acc = map_sum id ((@) acc) (descendents_loop cs [])" for acc
    by (rule Cons.IH, rule Cons.prems) simp
  show ?case
  proof (cases "descendents c []")
    case (Inl e)
    then show ?thesis using c[of "acc @ [c]"] c[of "[c]"] by simp
  next
    case (Inr ds)
    then have "descendents c (acc @ [c]) = Inr (acc @ c # ds)" "descendents c [c] = Inr (c # ds)"
      using c[of "acc @ [c]"] c[of "[c]"] by simp_all
    then show ?thesis
      using cs[of "acc @ c # ds"] cs[of "c # ds"]
      by (cases "descendents_loop cs []") simp_all
  qed
qed

lemma descendents_acc:
  "descendents this acc = map_sum id ((@) acc) (descendents this [])"
proof (induction "size (node this)" arbitrary: this acc rule: less_induct)
  case less
  show ?case
  proof (cases "children this")
    case (Inl e)
    then show ?thesis by (simp add: descendents.simps)
  next
    case (Inr cs)
    have "descendents_loop cs acc = map_sum id ((@) acc) (descendents_loop cs [])"
      by (rule descendents_loop_acc) (use Inr less children_size in blast)
    then show ?thesis using Inr by (simp add: descendents.simps)
  qed
qed

lemma map_sum_append_Nil: "map_sum id ((@) []) r = r"
  by (cases r) simp_all

lemma descendents_loop_concat:
  "descendents_loop cs acc =
     map_sum id ((@) acc) (concat_results (map child_with_descendents cs))"
proof (induction cs arbitrary: acc)
  case Nil
  then show ?case by simp
next
  case (Cons c cs)
  show ?case
  proof (cases "descendents c []")
    case (Inl e)
    then have "child_with_descendents c = Inl e" "descendents c (acc @ [c]) = Inl e"
      using descendents_acc[of c "acc @ [c]"] by (simp_all add: child_with_descendents_def)
    then show ?thesis by simp
  next
    case (Inr ds)
    then have "child_with_descendents c = Inr (c # ds)"
      and "descendents c (acc @ [c]) = Inr (acc @ c # ds)"
      using descendents_acc[of c "acc @ [c]"] by (simp_all add: child_with_descendents_def)
    then show ?thesis
      using Cons[of "acc @ c # ds"]
      by (cases "concat_results (map child_with_descendents cs)") simp_all
  qed
qed

lemma leaf_lookup_all:
  "list_all (\<lambda>k. map_of switch_cases k = Some (\<lambda>n. JArr [])) leaf_kinds"
  unfolding leaf_kinds_def list.pred_inject by (simp add: switch_cases_def)

lemma leaf_lookup: "k \<in> set leaf_kinds \<Longrightarrow> map_of switch_cases k = Some (\<lambda>n. JArr [])"
  using leaf_lookup_all by (simp add: list_all_iff)

lemma leaf_children_impl:
  "type this = JStr k \<Longrightarrow> k \<in> set leaf_kinds \<Longrightarrow> children_impl this = Inr (JArr [])"
  by (simp add: leaf_lookup children_impl_def run_switch_def type_def)

text \<open>
  Claim C3.  \<^verbatim>\<open>descendents()\<close> of a wrapped node is the concatenation, over its children from
  left to right, of the child followed by the child's own \<^verbatim>\<open>descendents()\<close>; when
  \<^verbatim>\<open>children()\<close> or the traversal of a child throws, so does \<^verbatim>\<open>descendents()\<close>, with the first
  exception.  For a node of a kind without children the result is the empty list.
\<close>

theorem descendents_preorder:
  "descendents this [] =
     (case children this of
        Inl e \<Rightarrow> Inl e
      | Inr cs \<Rightarrow> concat_results (map child_with_descendents cs))
   \<and> (\<forall>k\<in>set leaf_kinds. type this = JStr k \<longrightarrow> descendents this [] = Inr [])"
proof
  show "descendents this [] =
     (case children this of
        Inl e \<Rightarrow> Inl e
      | Inr cs \<Rightarrow> concat_results (map child_with_descendents cs))"
    by (simp add: descendents.simps descendents_loop_concat map_sum_append_Nil split: sum.splits)
  show "\<forall>k\<in>set leaf_kinds. type this = JStr k \<longrightarrow> descendents this [] = Inr []"
  proof (intro ballI impI)
    fix k assume "k \<in> set leaf_kinds" "type this = JStr k"
    then have "children this = Inr []"
      by (simp add: children_def leaf_children_impl)
    then show "descendents this [] = Inr []" by (simp add: descendents.simps)
  qed
qed

theorem descendents_preorder_witness:
  "''Identifier'' \<in> set leaf_kinds
   \<and> type (WNode (JObj [(''type'', JStr ''Identifier''), (''name'', JStr ''x'')]) None)
       = JStr ''Identifier''
   \<and> descendents (WNode (JObj [(''type'', JStr ''Identifier''), (''name'', JStr ''x'')]) None) []
       = Inr []"
  using descendents_preorder
    [of "WNode (JObj [(''type'', JStr ''Identifier''), (''name'', JStr ''x'')]) None",
     THEN conjunct2]
  by (simp add: leaf_kinds_def type_def)


section \<open>The child extractor on particular kinds\<close>

text \<open>
  Claim C4.  A \<^verbatim>\<open>ThrowStatement\<close> has the single child \<^verbatim>\<open>argument\<close>.  In src/spiderman.js the
  case \<^verbatim>\<open>'ThrowStatement'\<close> returns \<^verbatim>\<open>block\<close>, \<^verbatim>\<open>handler\<close> and \<^verbatim>\<open>finalizer\<close> instead, the fields of a
  \<^verbatim>\<open>try\<close> statement: for \<^verbatim>\<open>throw x;\<close> the extractor yields \<^verbatim>\<open>[undefined]\<close> and \<^verbatim>\<open>children()\<close>
  raises \<^verbatim>\<open>TypeError\<close>.  The later revision returns \<^verbatim>\<open>[argument]\<close>.
\<close>

theorem throw_statement_children:
  "children_impl (WNode throw_statement None) = Inr (JArr [JUndefined])
   \<and> children (WNode throw_statement None) = Inl TypeError
   \<and> children_impl_part_000 (WNode throw_statement None) = Inr (JArr [ident ''x''])"
  by code_simp

text \<open>
  Claim C5.  A \<^verbatim>\<open>TryStatement\<close> has the children \<^verbatim>\<open>block\<close>, \<^verbatim>\<open>handler\<close> (if present) and
  \<^verbatim>\<open>finalizer\<close> (if present).  src/spiderman.js has no case \<^verbatim>\<open>'TryStatement'\<close> (its body sits
  under \<^verbatim>\<open>'ThrowStatement'\<close>), so the node falls to \<^verbatim>\<open>default\<close> and the extractor throws
  \<^verbatim>\<open>Unknown node type\<close>.  The later revision returns the children.
\<close>

theorem try_statement_children:
  "children_impl (WNode try_statement None) =
     Inl (Thrown (''Unknown node type: TryStatement (type:string, block:BlockStatement, ''
                  @ ''guardedHandlers:[], handlers:[], handler, finalizer:BlockStatement)''
                  @ [CHR 0x0A, CHR 0x0A] @ report_url))
   \<and> children_impl_part_000 (WNode try_statement None) = Inr (JArr [block [], block []])"
  by code_simp

text \<open>
  Claim C6.  An absent optional child is left out of the list.  For a declarator without
  initialiser (\<^verbatim>\<open>var x;\<close>, where the parser sets \<^verbatim>\<open>init\<close> to \<^verbatim>\<open>null\<close>) both revisions return
  \<^verbatim>\<open>[node.init]\<close>, the list \<^verbatim>\<open>[null]\<close>, and \<^verbatim>\<open>children()\<close> raises \<^verbatim>\<open>TypeError\<close> on it.  The
  case \<^verbatim>\<open>ForStatement\<close> does leave its absent clauses out.
\<close>

theorem declarator_without_init_children:
  "children_impl (WNode declarator_without_init None) = Inr (JArr [JNull])
   \<and> children (WNode declarator_without_init None) = Inl TypeError
   \<and> children_impl_part_000 (WNode declarator_without_init None) = Inr (JArr [JNull])
   \<and> children_impl (WNode for_without_clauses None) = Inr (JArr [block []])"
  by code_simp

text \<open>
  Claim C7.  When the extractor yields an absent entry, \<^verbatim>\<open>children()\<close> fails with
  \<^verbatim>\<open>Missing child\<close> and the digest of the parent.  In src/spiderman.js \<^verbatim>\<open>children()\<close> has no
  such test: the constructor reads \<^verbatim>\<open>type\<close> of \<^verbatim>\<open>undefined\<close> and raises \<^verbatim>\<open>TypeError\<close>.  In the
  later revision the test is there, and building the message raises \<^verbatim>\<open>TypeError\<close>, the
  property \<^verbatim>\<open>Spiderman.formatNode\<close> being \<^verbatim>\<open>undefined\<close> in that file.
\<close>

theorem missing_child_children:
  "children_impl (WNode if_without_consequent None) = Inr (JArr [ident ''a'', JUndefined])
   \<and> children (WNode if_without_consequent None) = Inl TypeError
   \<and> children_impl_part_000 (WNode if_without_consequent None)
       = Inr (JArr [ident ''a'', JUndefined])
   \<and> children_part_000 None (WNode if_without_consequent None) = Inl TypeError"
  by code_simp

text \<open>Were the property \<^verbatim>\<open>Spiderman.formatNode\<close> bound to a function, the later revision would
  throw \<^verbatim>\<open>Missing child\<close> followed by what that function returns for the wrapped node.\<close>

lemma children_part_000_missing_child:
  "children_part_000 (Some f) (WNode if_without_consequent None) =
     (case f (WNode if_without_consequent None) of
        Inl e \<Rightarrow> Inl e
      | Inr d \<Rightarrow> Inl (Thrown (''Missing child: '' @ d)))"
proof -
  have "children_impl_part_000 (WNode if_without_consequent None)
          = Inr (JArr [ident ''a'', JUndefined])"
    by code_simp
  then show ?thesis
    by (simp add: children_part_000_def ident_def Node_def nullish_def split: sum.splits)
qed


section \<open>The digest\<close>

lemma to_string_error:
  "to_string v = Inl e \<Longrightarrow> e = TypeError"
  "elements_to_strings xs = Inl e \<Longrightarrow> e = TypeError"
  by (induction v and xs arbitrary: e and e rule: to_string_elements_to_strings.induct)
     (auto split: sum.splits option.splits if_splits)

lemma to_string_printable: "to_string v = (if printable v then Inr (text_of v) else Inl TypeError)"
  using to_string_error(1)[of v]
  by (cases "to_string v") (simp_all add: printable_def text_of_def)

lemma format_property_field:
  "format_property kv = (if field_prints kv then Inr (field_digest kv) else Inl TypeError)"
proof (cases kv rule: field_digest.cases)
  case (1 k fs)
  then show ?thesis
    using to_string_printable[of "prop_of (JObj fs) ''type''"]
    by (simp add: format_property_def)
qed (simp_all add: format_property_def)

lemma map_js_format_property:
  "map_js format_property kvs =
     (if list_all field_prints kvs then Inr (map field_digest kvs) else Inl TypeError)"
  by (induction kvs) (simp_all add: format_property_field)

lemma formatNode_not_nullish:
  "\<not> nullish n \<Longrightarrow>
     formatNode n = (if digest_defined n then Inr (digest n) else Inl TypeError)"
  using to_string_printable[of "prop_of n ''type''"]
  by (simp add: formatNode_def map_js_format_property digest_defined_def digest_def)

text \<open>
  Claim C9, as amended.  The digest of a raw node is its kind followed by one entry per
  field, in the order of \<^verbatim>\<open>Object.keys\<close>, separated by commas and enclosed in parentheses.
  The entry is \<^verbatim>\<open>field:kind\<close> when the value is a node, \<^verbatim>\<open>field:[]\<close> when it is a list,
  \<^verbatim>\<open>field:typeof\<close> for any other truthy value, and the bare \<^verbatim>\<open>field\<close> when the value is falsy.
  This is so when the kind of the node and the kinds of the fields that hold nodes can be
  converted to strings, as strings can; otherwise \<^verbatim>\<open>formatNode\<close> raises \<^verbatim>\<open>TypeError\<close>.
\<close>

theorem formatNode_digest:
  "formatNode (JObj fs) =
     (if list_all field_prints fs \<and> printable (prop_of (JObj fs) ''type'')
      then Inr (text_of (prop_of (JObj fs) ''type'') @ '' ('' @
                join '', '' (map field_digest fs) @ '')'')
      else Inl TypeError)
   \<and> printable (JStr kind) \<and> text_of (JStr kind) = kind"
  using formatNode_not_nullish[of "JObj fs"]
  by (simp add: nullish_def digest_defined_def digest_def printable_def text_of_def)

theorem formatNode_digest_witness:
  "list_all field_prints [(''type'', JStr ''VariableDeclarator''), (''id'', ident ''x''),
       (''init'', JNull)]
   \<and> printable (prop_of declarator_without_init ''type'')
   \<and> formatNode declarator_without_init
       = Inr ''VariableDeclarator (type:string, id:Identifier, init)''"
proof -
  have d: "declarator_without_init =
     JObj [(''type'', JStr ''VariableDeclarator''), (''id'', ident ''x''), (''init'', JNull)]"
    by (simp add: declarator_without_init_def)
  have a: "list_all field_prints [(''type'', JStr ''VariableDeclarator''), (''id'', ident ''x''),
       (''init'', JNull)]" by code_simp
  have b: "printable (prop_of declarator_without_init ''type'')" by code_simp
  have c: "text_of (prop_of declarator_without_init ''type'') @ '' ('' @
         join '', '' (map field_digest [(''type'', JStr ''VariableDeclarator''),
           (''id'', ident ''x''), (''init'', JNull)]) @ '')''
         = ''VariableDeclarator (type:string, id:Identifier, init)''" by code_simp
  from formatNode_digest[of "[(''type'', JStr ''VariableDeclarator''), (''id'', ident ''x''),
       (''init'', JNull)]", THEN conjunct1] a b c
  show ?thesis unfolding d by simp
qed

text \<open>
  The claim as first stated gives every field a kind, \<^verbatim>\<open>[]\<close> or a primitive type, and a
  digest to every node.  The field \<^verbatim>\<open>init\<close> of the declarator of \<^verbatim>\<open>var x;\<close> is \<^verbatim>\<open>null\<close>, and its
  entry is \<^verbatim>\<open>init\<close> alone; a node whose kind is an object with an own field \<^verbatim>\<open>toString\<close> has
  no digest.
\<close>

theorem formatNode_digest_counterexample:
  "formatNode declarator_without_init
     = Inr ''VariableDeclarator (type:string, id:Identifier, init)''
   \<and> claimed_digest declarator_without_init
     = ''VariableDeclarator (type:string, id:Identifier, init:object)''
   \<and> formatNode declarator_without_init \<noteq> Inr (claimed_digest declarator_without_init)
   \<and> formatNode unprintable_kind_node = Inl TypeError"
  by code_simp


section \<open>Nodes of unknown kind\<close>







section \<open>Scope resolution\<close>

lemma scope_introduces:
  "introduces_scope (type this) \<Longrightarrow> scope this = Inr (Scope this True)"
  by (cases this) simp

lemma scope_parent:
  "\<not> introduces_scope (type this) \<Longrightarrow>
     scope this = (case parent this of None \<Rightarrow> Inl TypeError | Some p \<Rightarrow> scope p)"
  by (cases this) simp

lemma scope_result:
  "scope this = Inr s \<Longrightarrow>
     introduces_scope (type (scope_node s)) \<and> cached s
     \<and> scope_node s \<in> set (this # ancestors this)"
proof (induction this rule: ancestors.induct)
  case (1 n)
  then show ?case by (auto split: if_splits)
next
  case (2 n p)
  then show ?case by (auto split: if_splits)
qed

lemma scope_succeeds:
  "w \<in> set (this # ancestors this) \<Longrightarrow> introduces_scope (type w) \<Longrightarrow>
     \<exists>s. scope this = Inr s"
proof (induction this rule: ancestors.induct)
  case (1 n)
  then show ?case by auto
next
  case (2 n p)
  then show ?case by (cases "introduces_scope (type (WNode n (Some p)))") auto
qed

lemma root_ancestors: "root this \<in> set (this # ancestors this)"
  by (induction this rule: ancestors.induct) auto

lemma ancestors_length:
  "x \<in> set (ancestors d) \<Longrightarrow> length (ancestors x) < length (ancestors d)"
  by (induction d rule: ancestors.induct) auto

lemma ancestors_trans:
  "x \<in> set (ancestors y) \<Longrightarrow> y \<in> set (ancestors z) \<Longrightarrow> x \<in> set (ancestors z)"
  by (induction z rule: ancestors.induct) auto

lemma not_own_ancestor: "x \<notin> set (ancestors x)"
  using ancestors_length[of x x] by auto

text \<open>
  Claim C2.  \<^verbatim>\<open>scope()\<close> of a node of kind \<^verbatim>\<open>Program\<close>, \<^verbatim>\<open>FunctionDeclaration\<close> or
  \<^verbatim>\<open>FunctionExpression\<close> is the scope of that node itself; of any other node it is \<^verbatim>\<open>scope()\<close>
  of its parent (\<^verbatim>\<open>TypeError\<close> when there is none).  A scope that is returned belongs to the
  node or one of its ancestors, and that node introduces a scope.  \<^verbatim>\<open>_scope()\<close> resolves to
  the same node.  In a tree whose root introduces a scope every node has exactly one
  scope, and the scope of the root is its own.
\<close>

theorem scope_resolution:
  "(introduces_scope (type this) \<longrightarrow> scope this = Inr (Scope this True))
   \<and> (\<not> introduces_scope (type this) \<longrightarrow>
          scope this = (case parent this of None \<Rightarrow> Inl TypeError | Some p \<Rightarrow> scope p))
   \<and> (\<forall>s. scope this = Inr s \<longrightarrow>
          introduces_scope (type (scope_node s)) \<and> scope_node s \<in> set (this # ancestors this))
   \<and> map_sum id scope_node (scope_impl this) = map_sum id scope_node (scope this)
   \<and> (introduces_scope (type (root this)) \<longrightarrow>
          (\<exists>!s. scope this = Inr s) \<and> scope (root this) = Inr (Scope (root this) True))"
proof -
  have "map_sum id scope_node (scope_impl this) = map_sum id scope_node (scope this)"
    by (cases "introduces_scope (type this)")
       (simp_all add: scope_impl_def scope_introduces scope_parent)
  then show ?thesis
    using scope_introduces[of this] scope_parent[of this] scope_result[of this]
      scope_succeeds[OF root_ancestors, of this] scope_introduces[of "root this"]
    by auto
qed

theorem scope_resolution_witness:
  "introduces_scope (type example_root)
   \<and> scope example_root = Inr (Scope example_root True)
   \<and> \<not> introduces_scope (type example_var_node)
   \<and> parent example_var_node = Some example_root
   \<and> introduces_scope (type (root example_var_node))
   \<and> scope example_var_node = Inr (Scope example_root True)
   \<and> (\<exists>!s. scope example_var_node = Inr s)"
proof -
  have r: "introduces_scope (type example_root)" by code_simp
  have v: "\<not> introduces_scope (type example_var_node)" by code_simp
  have p: "parent example_var_node = Some example_root"
    by (simp add: example_var_node_def)
  have t: "root example_var_node = example_root"
    by (simp add: example_var_node_def example_root_def)
  from scope_resolution[of example_root] r
  have sr: "scope example_root = Inr (Scope example_root True)" by blast
  from scope_resolution[of example_var_node] v p sr
  have sv: "scope example_var_node = Inr (Scope example_root True)" by simp
  from scope_resolution[of example_var_node] r t
  have u: "\<exists>!s. scope example_var_node = Inr s" by simp
  from r sr v p t sv u show ?thesis by simp
qed


section \<open>Identifier collection\<close>

text \<open>A descendant has the node it was reached from among its ancestors; in particular no
  node is its own descendant.\<close>

lemma map_js_Node_parent:
  "map_js (\<lambda>child. Node child p) xs = Inr cs \<Longrightarrow> c \<in> set cs \<Longrightarrow> parent c = p"
  by (induction xs arbitrary: cs) (auto simp: Node_def split: sum.splits if_splits)

lemma children_parent: "children this = Inr cs \<Longrightarrow> c \<in> set cs \<Longrightarrow> parent c = Some this"
  unfolding children_def
  by (auto split: sum.splits jsval.splits dest: map_js_Node_parent)

lemma parent_ancestors: "parent c = Some w \<Longrightarrow> ancestors c = w # ancestors w"
  by (cases c) auto

lemma concat_results_member:
  "concat_results rs = Inr xs \<Longrightarrow> x \<in> set xs \<Longrightarrow> \<exists>ys. Inr ys \<in> set rs \<and> x \<in> set ys"
proof (induction rs arbitrary: xs)
  case Nil
  then show ?case by simp
next
  case (Cons r rs)
  then show ?case by (fastforce split: sum.splits)
qed

lemma descendents_children:
  "descendents this [] = Inr ds \<Longrightarrow>
     \<exists>cs. children this = Inr cs \<and> concat_results (map child_with_descendents cs) = Inr ds"
  by (auto simp: descendents.simps descendents_loop_concat map_sum_append_Nil split: sum.splits)

lemma descendents_below:
  "descendents this [] = Inr ds \<Longrightarrow> d \<in> set ds \<Longrightarrow> this \<in> set (ancestors d)"
proof (induction "size (node this)" arbitrary: this ds d rule: less_induct)
  case less
  from descendents_children[OF less.prems(1)] obtain cs where
    cs: "children this = Inr cs" "concat_results (map child_with_descendents cs) = Inr ds"
    by blast
  from concat_results_member[OF cs(2) less.prems(2)] obtain ys where
    ys: "Inr ys \<in> set (map child_with_descendents cs)" "d \<in> set ys"
    by blast
  then obtain c where
    c: "c \<in> set cs" "child_with_descendents c = Inr ys" "d \<in> set ys"
    by auto
  from c(2) obtain ds' where ds': "descendents c [] = Inr ds'" "ys = c # ds'"
    by (auto simp: child_with_descendents_def split: sum.splits)
  have pc: "this \<in> set (ancestors c)"
    using children_parent[OF cs(1) c(1)] by (simp add: parent_ancestors)
  show ?case
  proof (cases "d = c")
    case True
    with pc show ?thesis by simp
  next
    case False
    with c(3) ds' have "d \<in> set ds'" by simp
    then have "c \<in> set (ancestors d)"
      using less.hyps[OF children_size[OF cs(1) c(1)] ds'(1)] by simp
    with pc show ?thesis by (rule ancestors_trans)
  qed
qed

lemma not_own_descendent: "descendents this [] = Inr ds \<Longrightarrow> this \<notin> set ds"
  using descendents_below[of this ds this] not_own_ancestor[of this] by auto

lemma parentScope_succeeds:
  assumes "w \<in> set (ancestors d)" "introduces_scope (type w)"
  shows "\<exists>s. parentScope d = Inr s"
proof (cases d)
  case (WNode n p)
  with assms(1) obtain q where q: "p = Some q" "w \<in> set (q # ancestors q)"
    by (cases p) auto
  from scope_succeeds[OF q(2) assms(2)] show ?thesis
    using WNode q(1) by (simp add: parentScope_def)
qed

lemma scope_error: "scope this = Inl e \<Longrightarrow> e = TypeError"
proof (induction this rule: ancestors.induct)
  case (1 n)
  then show ?case by (auto split: if_splits)
next
  case (2 n p)
  then show ?case by (auto split: if_splits)
qed

lemma parentScope_error: "parentScope d = Inl e \<Longrightarrow> e = TypeError"
  by (auto simp: parentScope_def split: option.splits dest: scope_error)

lemma identifiers_loop_general:
  "identifiers_loop this ds acc =
     (if list_all parent_scope_resolves ds
      then Inr (acc @ map declared_name (filter (declares_in this) ds))
      else Inl TypeError)"
proof (induction ds arbitrary: acc)
  case Nil
  then show ?case by simp
next
  case (Cons d ds)
  show ?case
  proof (cases "parentScope d")
    case (Inl e)
    with parentScope_error[OF Inl] show ?thesis
      by (simp add: parent_scope_resolves_def)
  next
    case (Inr s)
    have d: "declares_in this d =
        (s = this \<and> truthy (prop_of (node d) ''id'') \<and>
         prop_of (prop_of (node d) ''id'') ''type'' = JStr ''Identifier'')"
      using Inr by (auto simp: declares_in_def has_identifier_id_def)
    have n: "declared_name d = prop_of (prop_of (node d) ''id'') ''name''"
      by (simp add: declared_name_def)
    have r: "parent_scope_resolves d"
      using Inr by (simp add: parent_scope_resolves_def)
    show ?thesis
      by (simp add: Inr Cons d n r Let_def)
  qed
qed

lemma identifiers_general:
  "identifiers this =
     (case descendents (scope_node this) [] of
        Inl e \<Rightarrow> Inl e
      | Inr ds \<Rightarrow>
          if list_all parent_scope_resolves ds
          then Inr (map declared_name (filter (declares_in this) ds))
          else Inl TypeError)"
  by (simp add: identifiers_def identifiers_impl_def identifiers_loop_general split: sum.splits)

lemma identifiers_loop_filter:
  "\<forall>d\<in>set ds. \<exists>s. parentScope d = Inr s \<Longrightarrow>
     identifiers_loop this ds acc = Inr (acc @ map declared_name (filter (declares_in this) ds))"
proof (induction ds arbitrary: acc)
  case Nil
  then show ?case by simp
next
  case (Cons d ds)
  then obtain s where s: "parentScope d = Inr s" by auto
  have ih: "identifiers_loop this ds acc = Inr (acc @ map declared_name (filter (declares_in this) ds))" for acc
    using Cons by simp
  have d: "declares_in this d =
      (s = this \<and> truthy (prop_of (node d) ''id'') \<and>
       prop_of (prop_of (node d) ''id'') ''type'' = JStr ''Identifier'')"
    using s by (auto simp: declares_in_def has_identifier_id_def)
  have n: "declared_name d = prop_of (prop_of (node d) ''id'') ''name''"
    by (simp add: declared_name_def)
  show ?case
    by (simp add: s ih d n Let_def)
qed

lemma identifiers_declaring_nodes:
  assumes "introduces_scope (type (scope_node this))"
  shows "identifiers this = map_sum id (map declared_name) (declaring_nodes this)"
proof (cases "descendents (scope_node this) []")
  case (Inl e)
  then show ?thesis by (simp add: identifiers_def identifiers_impl_def declaring_nodes_def)
next
  case (Inr ds)
  have "\<forall>d\<in>set ds. \<exists>s. parentScope d = Inr s"
    using descendents_below[OF Inr] parentScope_succeeds[OF _ assms] by blast
  from identifiers_loop_filter[OF this, of this "[]"] show ?thesis
    using Inr by (simp add: identifiers_def identifiers_impl_def declaring_nodes_def)
qed


lemma map_sum_map_sum_id: "map_sum id f (map_sum id g r) = map_sum id (\<lambda>x. f (g x)) r"
  by (cases r) simp_all

text \<open>
  Claim C1.  \<^verbatim>\<open>identifiers()\<close> of a scope walks \<^verbatim>\<open>descendents()\<close> of the scope's node and returns
  the names \<^verbatim>\<open>node.id.name\<close> of exactly those descendants, in that order and with
  repetitions, whose parent's \<^verbatim>\<open>scope()\<close> is this scope object and whose raw node has an \<^verbatim>\<open>id\<close>
  of kind \<^verbatim>\<open>Identifier\<close>.  It throws what \<^verbatim>\<open>descendents()\<close> throws, and \<^verbatim>\<open>TypeError\<close> when
  \<^verbatim>\<open>parentScope()\<close> of a descendant does; the latter cannot happen when the node of the scope
  introduces a scope.  For the example program the root scope collects \<^verbatim>\<open>foo\<close>, \<^verbatim>\<open>i\<close>, \<^verbatim>\<open>f\<close>,
  in that order.
\<close>

theorem identifiers_collects:
  "identifiers this =
     (case descendents (scope_node this) [] of
        Inl e \<Rightarrow> Inl e
      | Inr ds \<Rightarrow>
          if list_all parent_scope_resolves ds
          then Inr (map declared_name (filter (declares_in this) ds))
          else Inl TypeError)
   \<and> (introduces_scope (type (scope_node this)) \<longrightarrow>
        identifiers this =
          map_sum id (\<lambda>ds. map declared_name (filter (declares_in this) ds))
            (descendents (scope_node this) []))
   \<and> Spiderman example_program = Inr example_root
   \<and> scope example_root = Inr (Scope example_root True)
   \<and> identifiers (Scope example_root True) = Inr [JStr ''foo'', JStr ''i'', JStr ''f'']"
proof (intro conjI impI)
  show "identifiers this =
     (case descendents (scope_node this) [] of
        Inl e \<Rightarrow> Inl e
      | Inr ds \<Rightarrow>
          if list_all parent_scope_resolves ds
          then Inr (map declared_name (filter (declares_in this) ds))
          else Inl TypeError)"
    by (rule identifiers_general)
next
  assume "introduces_scope (type (scope_node this))"
  then show "identifiers this =
        map_sum id (\<lambda>ds. map declared_name (filter (declares_in this) ds))
          (descendents (scope_node this) [])"
    by (simp add: identifiers_declaring_nodes declaring_nodes_def map_sum_map_sum_id)
next
  show "Spiderman example_program = Inr example_root" by code_simp
next
  show "scope example_root = Inr (Scope example_root True)" by code_simp
next
  show "identifiers (Scope example_root True) = Inr [JStr ''foo'', JStr ''i'', JStr ''f'']"
    by code_simp
qed

theorem identifiers_collects_witness:
  "introduces_scope (type (scope_node (Scope example_root True)))
   \<and> identifiers (Scope example_root True) =
        map_sum id (\<lambda>ds. map declared_name (filter (declares_in (Scope example_root True)) ds))
          (descendents (scope_node (Scope example_root True)) [])"
proof -
  have "introduces_scope (type (scope_node (Scope example_root True)))" by code_simp
  with identifiers_collects[of "Scope example_root True", THEN conjunct2] show ?thesis
    by blast
qed

text \<open>A scope object that is not the one \<^verbatim>\<open>scope()\<close> returns, such as the result of calling
  \<^verbatim>\<open>_scope()\<close> directly, is the parent's scope of no node: it collects nothing.\<close>

lemma other_scope_object_collects_nothing:
  assumes "introduces_scope (type this)"
  shows "scope_impl this = Inr (Scope this False)"
    and "identifiers (Scope this False) = map_sum id (\<lambda>ds. []) (descendents this [])"
proof -
  show "scope_impl this = Inr (Scope this False)"
    using assms by (simp add: scope_impl_def)
  have "\<not> declares_in (Scope this False) d" for d
  proof
    assume "declares_in (Scope this False) d"
    then obtain p where "scope p = Inr (Scope this False)"
      by (auto simp: declares_in_def parentScope_def split: option.splits)
    from scope_result[OF this] show False by simp
  qed
  then have "filter (declares_in (Scope this False)) ds = []" for ds
    by (simp add: filter_empty_conv)
  then show "identifiers (Scope this False) = map_sum id (\<lambda>ds. []) (descendents this [])"
    using identifiers_declaring_nodes[of "Scope this False"] assms
    by (simp add: declaring_nodes_def map_sum_map_sum_id)
qed

text \<open>The parent's scope of a node is the scope of its nearest ancestor that introduces
  one.\<close>

lemma scope_find:
  "scope this =
     (case find (\<lambda>a. introduces_scope (type a)) (this # ancestors this) of
        None \<Rightarrow> Inl TypeError
      | Some a \<Rightarrow> Inr (Scope a True))"
  by (induction this rule: ancestors.induct) simp_all

lemma parentScope_nearest:
  "parentScope d =
     (case nearest_scope_ancestor d of
        None \<Rightarrow> Inl TypeError
      | Some a \<Rightarrow> Inr (Scope a True))"
proof (cases d)
  case (WNode n p)
  then show ?thesis
    by (cases p) (simp_all add: parentScope_def nearest_scope_ancestor_def scope_find)
qed

lemma nearest_scope_ancestor_introduces:
  "nearest_scope_ancestor d = Some a \<Longrightarrow> introduces_scope (type a) \<and> a \<in> set (ancestors d)"
  by (auto simp: nearest_scope_ancestor_def find_Some_iff)

text \<open>The traversal is complete: when \<^verbatim>\<open>w.descendents()\<close> returns, the list holds every
  node nested in \<open>w\<close>.\<close>

lemma concat_results_elem:
  "concat_results rs = Inr xs \<Longrightarrow> r \<in> set rs \<Longrightarrow> \<exists>ys. r = Inr ys \<and> set ys \<subseteq> set xs"
proof (induction rs arbitrary: xs)
  case Nil
  then show ?case by simp
next
  case (Cons a rs)
  then show ?case by (fastforce split: sum.splits)
qed

lemma descendents_child:
  assumes "descendents w [] = Inr ds" "is_child c w"
  shows "c \<in> set ds \<and> (\<exists>dc. descendents c [] = Inr dc \<and> set dc \<subseteq> set ds)"
proof -
  from descendents_children[OF assms(1)] obtain cs where
    cs: "children w = Inr cs" "concat_results (map child_with_descendents cs) = Inr ds"
    by blast
  from assms(2) cs(1) have "c \<in> set cs" by (simp add: is_child_def)
  then have "child_with_descendents c \<in> set (map child_with_descendents cs)" by simp
  from concat_results_elem[OF cs(2) this] obtain ys where
    ys: "child_with_descendents c = Inr ys" "set ys \<subseteq> set ds" by blast
  from ys(1) obtain dc where "descendents c [] = Inr dc" "ys = c # dc"
    by (auto simp: child_with_descendents_def split: sum.splits)
  with ys(2) show ?thesis by auto
qed

lemma descendents_trans:
  "descendents w [] = Inr ds \<Longrightarrow> p \<in> set ds \<Longrightarrow>
     \<exists>dp. descendents p [] = Inr dp \<and> set dp \<subseteq> set ds"
proof (induction "size (node w)" arbitrary: w ds p rule: less_induct)
  case less
  from descendents_children[OF less.prems(1)] obtain cs where
    cs: "children w = Inr cs" "concat_results (map child_with_descendents cs) = Inr ds"
    by blast
  from concat_results_member[OF cs(2) less.prems(2)] obtain ys where
    ys: "Inr ys \<in> set (map child_with_descendents cs)" "p \<in> set ys"
    by blast
  then obtain c where
    c: "c \<in> set cs" "child_with_descendents c = Inr ys"
    by auto
  from c(2) obtain ds' where ds': "descendents c [] = Inr ds'" "ys = c # ds'"
    by (auto simp: child_with_descendents_def split: sum.splits)
  from concat_results_elem[OF cs(2) ys(1)] have sub: "set ys \<subseteq> set ds" by simp
  show ?case
  proof (cases "p = c")
    case True
    with ds' sub show ?thesis by auto
  next
    case False
    with ys(2) ds' have "p \<in> set ds'" by simp
    from less.hyps[OF children_size[OF cs(1) c(1)] ds'(1) this] obtain dp where
      "descendents p [] = Inr dp" "set dp \<subseteq> set ds'" by blast
    with ds'(2) sub show ?thesis by auto
  qed
qed

lemma descendents_reaches:
  "nested_in d w \<Longrightarrow> descendents w [] = Inr ds \<Longrightarrow> d \<in> set ds"
proof (induction d w arbitrary: ds rule: nested_in.induct)
  case (1 n w)
  then show ?case by simp
next
  case (2 n p w)
  from "2.prems"(1) have ch: "is_child (WNode n (Some p)) p" and
    or: "p = w \<or> nested_in p w" by simp_all
  show ?case
  proof (cases "p = w")
    case True
    with descendents_child[OF "2.prems"(2)] ch show ?thesis by simp
  next
    case False
    with or have "nested_in p w" by simp
    from "2.IH"[OF this "2.prems"(2)] have "p \<in> set ds" .
    from descendents_trans[OF "2.prems"(2) this] obtain dp where
      dp: "descendents p [] = Inr dp" "set dp \<subseteq> set ds" by blast
    from descendents_child[OF dp(1) ch] dp(2) show ?thesis by auto
  qed
qed

text \<open>
  Claim C10, as amended.  Let \<open>F\<close> be a function declaration or a named function
  expression nested in \<open>N\<close>, its nearest ancestor that introduces a scope: \<open>F\<close> is nested in
  the scope \<open>S\<close> of \<open>N\<close> with no node that introduces a scope between.  Then the parent's scope
  of \<open>F\<close> is \<open>S\<close>, and \<open>F\<close> passes the two tests of \<^verbatim>\<open>S.identifiers()\<close>.  When \<^verbatim>\<open>descendents()\<close>
  of \<open>N\<close> returns, it reaches \<open>F\<close>, and the name of \<open>F\<close> is in the list \<^verbatim>\<open>S.identifiers()\<close>
  returns; when it throws, \<^verbatim>\<open>S.identifiers()\<close> throws the same and there is no list.  The
  scope of \<open>F\<close> is the one \<open>F\<close> introduces, and \<open>F\<close> is never one of the nodes whose \<^verbatim>\<open>id\<close> that
  scope collects.
\<close>

theorem function_name_scope:
  assumes "type F = JStr ''FunctionDeclaration'' \<or> type F = JStr ''FunctionExpression''"
    and "has_identifier_id F"
    and "nearest_scope_ancestor F = Some N"
    and "nested_in F N"
  shows "parentScope F = Inr (Scope N True)
     \<and> scope N = Inr (Scope N True)
     \<and> declares_in (Scope N True) F
     \<and> identifiers (Scope N True) =
         map_sum id (map declared_name) (declaring_nodes (Scope N True))
     \<and> (\<forall>ds. descendents N [] = Inr ds \<longrightarrow>
          F \<in> set ds
          \<and> contributes_to F (Scope N True)
          \<and> identifiers (Scope N True) =
              Inr (map declared_name (filter (declares_in (Scope N True)) ds))
          \<and> declared_name F \<in> set (map declared_name (filter (declares_in (Scope N True)) ds)))
     \<and> (\<forall>e. descendents N [] = Inl e \<longrightarrow> identifiers (Scope N True) = Inl e)
     \<and> scope F = Inr (Scope F True)
     \<and> \<not> contributes_to F (Scope F True)
     \<and> identifiers (Scope F True) =
         map_sum id (map declared_name) (declaring_nodes (Scope F True))"
proof -
  have N: "introduces_scope (type N)"
    using nearest_scope_ancestor_introduces[OF assms(3)] by simp
  have p: "parentScope F = Inr (Scope N True)"
    using assms(3) by (simp add: parentScope_nearest)
  have sN: "scope N = Inr (Scope N True)"
    by (rule scope_introduces[OF N])
  have F: "introduces_scope (type F)"
    using assms(1) by (auto simp: introduces_scope_def)
  have d: "declares_in (Scope N True) F"
    using assms(2) p by (simp add: declares_in_def)
  have i: "identifiers (Scope N True) =
         map_sum id (map declared_name) (declaring_nodes (Scope N True))"
    by (rule identifiers_declaring_nodes) (simp add: N)
  have c: "F \<in> set ds
          \<and> contributes_to F (Scope N True)
          \<and> identifiers (Scope N True) =
              Inr (map declared_name (filter (declares_in (Scope N True)) ds))
          \<and> declared_name F \<in> set (map declared_name (filter (declares_in (Scope N True)) ds))"
    if ds: "descendents N [] = Inr ds" for ds
  proof -
    from descendents_reaches[OF assms(4) ds] have m: "F \<in> set ds" .
    have dn: "declaring_nodes (Scope N True) = Inr (filter (declares_in (Scope N True)) ds)"
      using ds by (simp add: declaring_nodes_def)
    show ?thesis
      using dn m d i by (simp add: contributes_to_def)
  qed
  have e: "identifiers (Scope N True) = Inl e" if "descendents N [] = Inl e" for e
    using that i by (simp add: declaring_nodes_def)
  have s: "scope F = Inr (Scope F True)"
    by (rule scope_introduces[OF F])
  have o: "\<not> contributes_to F (Scope F True)"
  proof (cases "descendents F []")
    case (Inl e)
    then show ?thesis by (simp add: contributes_to_def declaring_nodes_def)
  next
    case (Inr ds')
    with not_own_descendent[OF Inr] show ?thesis
      by (simp add: contributes_to_def declaring_nodes_def)
  qed
  have i': "identifiers (Scope F True) =
         map_sum id (map declared_name) (declaring_nodes (Scope F True))"
    by (rule identifiers_declaring_nodes) (simp add: F)
  from p sN d i c e s o i' show ?thesis by blast
qed

theorem function_name_scope_witness:
  "(type inner_node = JStr ''FunctionDeclaration''
      \<or> type inner_node = JStr ''FunctionExpression'')
   \<and> has_identifier_id inner_node
   \<and> nearest_scope_ancestor inner_node = Some outer_node
   \<and> nested_in inner_node outer_node
   \<and> declared_name inner_node = JStr ''inner''
   \<and> parentScope inner_node = Inr (Scope outer_node True)
   \<and> contributes_to inner_node (Scope outer_node True)
   \<and> identifiers (Scope outer_node True) = Inr [JStr ''h'', JStr ''inner'']
   \<and> identifiers (Scope nested_root True) = Inr [JStr ''outer'']
   \<and> scope inner_node = Inr (Scope inner_node True)
   \<and> \<not> contributes_to inner_node (Scope inner_node True)
   \<and> identifiers (Scope inner_node True) = Inr [JStr ''z'']"
proof -
  have h1: "type inner_node = JStr ''FunctionDeclaration''
      \<or> type inner_node = JStr ''FunctionExpression''" by code_simp
  have h2: "has_identifier_id inner_node" by code_simp
  have h3: "nearest_scope_ancestor inner_node = Some outer_node" by code_simp
  have h4: "nested_in inner_node outer_node" by code_simp
  have h5: "declared_name inner_node = JStr ''inner''" by code_simp
  have "case descendents outer_node [] of Inl e \<Rightarrow> False | Inr ds \<Rightarrow> True" by code_simp
  then obtain ds where ds: "descendents outer_node [] = Inr ds"
    by (auto split: sum.splits)
  have v1: "identifiers (Scope outer_node True) = Inr [JStr ''h'', JStr ''inner'']"
    by code_simp
  have v2: "identifiers (Scope nested_root True) = Inr [JStr ''outer'']" by code_simp
  have v3: "identifiers (Scope inner_node True) = Inr [JStr ''z'']" by code_simp
  from function_name_scope[OF h1 h2 h3 h4] ds h1 h2 h3 h4 h5 v1 v2 v3 show ?thesis by blast
qed

text \<open>
  The claim as first stated has the name collected for every such function.  In the
  program \<^verbatim>\<open>function f() { }\<close> followed by a class declaration, \<^verbatim>\<open>f\<close> is a child of the root and
  nested in its scope, yet \<^verbatim>\<open>identifiers()\<close> of that scope throws \<^verbatim>\<open>Unknown node type\<close>: the
  traversal does not get past the class.
\<close>

theorem function_name_scope_counterexample:
  "type plain_function_node = JStr ''FunctionDeclaration''
   \<and> has_identifier_id plain_function_node
   \<and> declared_name plain_function_node = JStr ''f''
   \<and> nearest_scope_ancestor plain_function_node = Some class_root
   \<and> nested_in plain_function_node class_root
   \<and> children class_root =
       Inr [plain_function_node, WNode class_declaration (Some class_root)]
   \<and> scope class_root = Inr (Scope class_root True)
   \<and> parentScope plain_function_node = Inr (Scope class_root True)
   \<and> identifiers (Scope class_root True) =
       Inl (Thrown (unknown_message ''ClassDeclaration (type:string, id:Identifier)''))"
  by code_simp

text \<open>Likewise for \<^verbatim>\<open>function f() { var x; }\<close>, where the traversal stops at the declarator,
  whose absent \<^verbatim>\<open>init\<close> is returned as a child.\<close>

lemma bare_var_function_not_collected:
  "type bare_var_function_node = JStr ''FunctionDeclaration''
   \<and> has_identifier_id bare_var_function_node
   \<and> nearest_scope_ancestor bare_var_function_node = Some bare_var_root
   \<and> nested_in bare_var_function_node bare_var_root
   \<and> identifiers (Scope bare_var_root True) = Inl TypeError"
  by code_simp

end
